theory Spec2Isabelle
  imports Complex_Main "HOL-Library.Word"
begin

unbundle bit_operations_syntax

section \<open>Strings\<close>

text \<open>
  A JavaScript string is a sequence of UTF-16 code units. The model uses \<^typ>\<open>string\<close>,
  whose characters are the 256 code units \<open>0x00 .. 0xFF\<close> (the Latin-1 range), so
  \<^const>\<open>length\<close> is \<open>String.prototype.length\<close> and every function below does on these
  code units what the JavaScript built-in does.
\<close>

definition code_unit :: "char \<Rightarrow> nat" where
  "code_unit c = of_char c"

definition in_range :: "nat \<Rightarrow> nat \<Rightarrow> char \<Rightarrow> bool" where
  "in_range lo hi c = (lo \<le> code_unit c \<and> code_unit c \<le> hi)"

text \<open>\<open>String.prototype.toLowerCase\<close>: \<open>A-Z\<close> and the Latin-1 capitals
  \<open>0xC0 .. 0xDE\<close> (without the multiplication sign \<open>0xD7\<close>) move up by 32.\<close>

definition lower_char :: "char \<Rightarrow> char" where
  "lower_char c =
     (if in_range 65 90 c \<or> in_range 192 214 c \<or> in_range 216 222 c
      then char_of (code_unit c + 32) else c)"

definition toLowerCase :: "string \<Rightarrow> string" where
  "toLowerCase s = map lower_char s"

fun startsWith :: "string \<Rightarrow> string \<Rightarrow> bool" where
  "startsWith s [] = True"
| "startsWith [] (c # w) = False"
| "startsWith (d # s) (c # w) = (d = c \<and> startsWith s w)"

text \<open>\<open>String.prototype.includes\<close>: the word occurs at some position of the string.\<close>

fun includes_str :: "string \<Rightarrow> string \<Rightarrow> bool" where
  "includes_str [] w = (w = [])"
| "includes_str (d # s) w = (startsWith (d # s) w \<or> includes_str s w)"

section \<open>Lexicon sentiment, basic variant (\<open>getSentiment\<close>)\<close>

datatype sentiment = Positive | Negative | Neutral

definition positiveWords :: "string list" where
  "positiveWords =
     [''great'', ''smoothly'', ''hard work'', ''love'', ''amazing'', ''excellent'',
      ''fantastic'', ''ready'', ''good'', ''thanks'', ''wonderful'']"

definition negativeWords :: "string list" where
  "negativeWords =
     [''issue'', ''disappointing'', ''401 error'', ''problem'', ''critical'', ''bug'',
      ''urgent'', ''error'', ''issues'', ''help'']"

text \<open>The two \<open>for\<close> loops over the word lists, threading \<open>score\<close>.\<close>

fun positive_loop :: "string \<Rightarrow> string list \<Rightarrow> int \<Rightarrow> int" where
  "positive_loop lowerText [] score = score"
| "positive_loop lowerText (w # ws) score =
     positive_loop lowerText ws (if includes_str lowerText w then score + 1 else score)"

fun negative_loop :: "string \<Rightarrow> string list \<Rightarrow> int \<Rightarrow> int" where
  "negative_loop lowerText [] score = score"
| "negative_loop lowerText (w # ws) score =
     negative_loop lowerText ws (if includes_str lowerText w then score - 1 else score)"

definition getSentiment_score :: "string \<Rightarrow> int" where
  "getSentiment_score text =
     (let lowerText = toLowerCase text
      in negative_loop lowerText negativeWords (positive_loop lowerText positiveWords 0))"

definition getSentiment :: "string \<Rightarrow> sentiment" where
  "getSentiment text =
     (let score = getSentiment_score text
      in if score > 0 then Positive else if score < 0 then Negative else Neutral)"

section \<open>Regular expressions\<close>

text \<open>
  The patterns of \<open>anonymizeText\<close> use character classes, \<open>\b\<close>, concatenation and
  greedy quantifiers only (no alternation, no backreference, no flag but \<open>g\<close>). A class is
  the string of its members, so \<open>[a-c.]\<close> is \<open>Cls ''abc.''\<close>; \<open>Rep r lo hi\<close> is the greedy
  \<open>r{lo,hi}\<close>, unbounded when \<open>hi\<close> is \<open>None\<close>.
\<close>

datatype re = Eps | Cls string | WordB | Seq re re | Rep re nat "nat option"

definition upper :: string where "upper = ''ABCDEFGHIJKLMNOPQRSTUVWXYZ''"
definition lower :: string where "lower = ''abcdefghijklmnopqrstuvwxyz''"
definition digits :: string where "digits = ''0123456789''"

text \<open>\<open>\w\<close> is \<open>[A-Za-z0-9_]\<close>; \<open>\s\<close> is, among the code units below 256, tab, line feed,
  vertical tab, form feed, carriage return, space and the no-break space.\<close>

definition word_chars :: string where "word_chars = upper @ lower @ digits @ ''_''"

definition space_chars :: string where
  "space_chars = [CHR 0x09, CHR 0x0A, CHR 0x0B, CHR 0x0C, CHR 0x0D, CHR '' '', CHR 0xA0]"

definition is_word :: "char \<Rightarrow> bool" where
  "is_word c = (c \<in> set word_chars)"

text \<open>
  A position of the subject string: whether the code unit before it is a word character
  (what \<open>\b\<close> looks back at; false at the start), and the rest of the string from there.
\<close>

type_synonym cursor = "bool \<times> string"

definition word_boundary :: "cursor \<Rightarrow> bool" where
  "word_boundary cur = (fst cur \<noteq> (case snd cur of [] \<Rightarrow> False | c # _ \<Rightarrow> is_word c))"

fun re_size :: "re \<Rightarrow> nat" where
  "re_size Eps = 1"
| "re_size (Cls cs) = 1"
| "re_size WordB = 1"
| "re_size (Seq a b) = re_size a + re_size b + 1"
| "re_size (Rep a lo hi) = re_size a + 1"

text \<open>
  The backtracking matcher: every position at which a match of the pattern that starts at
  the cursor can end, in the order in which backtracking tries them, so the head of the list
  is the match the engine reports. A greedy quantifier tries one more iteration before it
  stops. An iteration that consumes nothing is not repeated (no pattern here has one).
\<close>

function (sequential) matches :: "re \<Rightarrow> cursor \<Rightarrow> cursor list" where
  "matches Eps cur = [cur]"
| "matches (Cls cs) (p, []) = []"
| "matches (Cls cs) (p, c # rest) = (if c \<in> set cs then [(is_word c, rest)] else [])"
| "matches WordB cur = (if word_boundary cur then [cur] else [])"
| "matches (Seq a b) cur = concat (map (matches b) (matches a cur))"
| "matches (Rep a lo hi) cur =
     (if hi = Some 0 then []
      else concat (map (\<lambda>cur'. if length (snd cur') < length (snd cur)
                               then matches (Rep a (lo - 1) (map_option (\<lambda>h. h - 1) hi)) cur'
                               else [])
                       (matches a cur)))
     @ (if lo = 0 then [cur] else [])"
  by pat_completeness auto
termination
  by (relation "inv_image (less_than <*lex*> less_than)
                  (\<lambda>(r, cur). (re_size r, length (snd cur)))") auto

text \<open>
  \<open>String.prototype.replace\<close> with a global pattern and a replacement without \<open>$\<close>: the
  leftmost match from the cursor on is replaced and the search goes on behind it; where no
  match starts, the code unit is copied. After an empty match the search moves on by one.
\<close>

function replace_from :: "re \<Rightarrow> string \<Rightarrow> cursor \<Rightarrow> string" where
  "replace_from r tok cur =
     (case matches r cur of
        [] \<Rightarrow> (case snd cur of [] \<Rightarrow> [] | c # rest \<Rightarrow> c # replace_from r tok (is_word c, rest))
      | cur' # _ \<Rightarrow>
          if length (snd cur') < length (snd cur) then tok @ replace_from r tok cur'
          else tok @ (case snd cur of [] \<Rightarrow> []
                      | c # rest \<Rightarrow> c # replace_from r tok (is_word c, rest)))"
  by pat_completeness auto
termination
  by (relation "measure (\<lambda>(r, tok, cur). length (snd cur))") auto

definition replace :: "re \<Rightarrow> string \<Rightarrow> string \<Rightarrow> string" where
  "replace r tok s = replace_from r tok (False, s)"

fun seqs :: "re list \<Rightarrow> re" where
  "seqs [] = Eps"
| "seqs [r] = r"
| "seqs (r # rs) = Seq r (seqs rs)"

definition lit :: "string \<Rightarrow> re" where "lit w = seqs (map (\<lambda>c. Cls [c]) w)"
definition digit :: re where "digit = Cls digits"
definition times :: "nat \<Rightarrow> re \<Rightarrow> re" where "times n r = Rep r n (Some n)"
definition opt :: "re \<Rightarrow> re" where "opt r = Rep r 0 (Some 1)"
definition plus :: "re \<Rightarrow> re" where "plus r = Rep r 1 None"
definition star :: "re \<Rightarrow> re" where "star r = Rep r 0 None"

section \<open>The redaction rules (\<open>anonymizeText\<close>)\<close>

text \<open>\<open>/\b[A-Za-z0-9._%+-]+@[A-Za-z0-9.-]+\.[A-Z|a-z]{2,}\b/g\<close>\<close>

definition email_re :: re where
  "email_re = seqs [WordB, plus (Cls (upper @ lower @ digits @ ''._%+-'')), lit ''@'',
     plus (Cls (upper @ lower @ digits @ ''.-'')), lit ''.'',
     Rep (Cls (upper @ ''|'' @ lower)) 2 None, WordB]"

text \<open>\<open>/\b\d{3}[-.]?\d{3}[-.]?\d{4}\b/g\<close>\<close>

definition phone1_re :: re where
  "phone1_re = seqs [WordB, times 3 digit, opt (Cls ''-.''), times 3 digit, opt (Cls ''-.''),
     times 4 digit, WordB]"

text \<open>\<open>/\(\d{3}\)\s*\d{3}[-.]?\d{4}/g\<close>\<close>

definition phone2_re :: re where
  "phone2_re = seqs [lit ''('', times 3 digit, lit '')'', star (Cls space_chars), times 3 digit,
     opt (Cls ''-.''), times 4 digit]"

text \<open>\<open>/\b\d{3}[-.\s]\d{3}[-.\s]\d{4}\b/g\<close>\<close>

definition phone3_re :: re where
  "phone3_re = seqs [WordB, times 3 digit, Cls (''-.'' @ space_chars), times 3 digit,
     Cls (''-.'' @ space_chars), times 4 digit, WordB]"

text \<open>\<open>/https?:\/\/(www\.)?[-a-zA-Z0-9@:%._\+~#=]{1,256}\.[a-zA-Z0-9()]{1,6}\b([-a-zA-Z0-9()@:%_\+.~#?&//=]*)/g\<close>\<close>

definition url_re :: re where
  "url_re = seqs [lit ''http'', opt (lit ''s''), lit ''://'', opt (lit ''www.''),
     Rep (Cls (''-'' @ lower @ upper @ digits @ ''@:%._+~#='')) 1 (Some 256), lit ''.'',
     Rep (Cls (lower @ upper @ digits @ ''()'')) 1 (Some 6), WordB,
     star (Cls (''-'' @ lower @ upper @ digits @ ''()@:%_+.~#?&//=''))]"

text \<open>\<open>/\b(?:[0-9]{1,3}\.){3}[0-9]{1,3}\b/g\<close>\<close>

definition ip_re :: re where
  "ip_re = seqs [WordB, times 3 (Seq (Rep digit 1 (Some 3)) (lit ''.'')), Rep digit 1 (Some 3),
     WordB]"

text \<open>\<open>/\b\d{4}[-\s]?\d{4}[-\s]?\d{4}[-\s]?\d{4}\b/g\<close>\<close>

definition card_re :: re where
  "card_re = seqs [WordB, times 4 digit, opt (Cls (''-'' @ space_chars)), times 4 digit,
     opt (Cls (''-'' @ space_chars)), times 4 digit, opt (Cls (''-'' @ space_chars)),
     times 4 digit, WordB]"

text \<open>\<open>/\bending in \d{4}\b/g\<close>\<close>

definition card_partial_re :: re where
  "card_partial_re = seqs [WordB, lit ''ending in '', times 4 digit, WordB]"

text \<open>\<open>/\b\d{3}-\d{2}-\d{4}\b/g\<close>\<close>

definition ssn_re :: re where
  "ssn_re = seqs [WordB, times 3 digit, lit ''-'', times 2 digit, lit ''-'', times 4 digit, WordB]"

text \<open>\<open>/\bAccount \d{10,}\b/g\<close>\<close>

definition account_re :: re where
  "account_re = seqs [WordB, lit ''Account '', Rep digit 10 None, WordB]"

text \<open>\<open>/\b[A-Z]{3}-\d{4}-\d{6}\b/g\<close>\<close>

definition transaction_re :: re where
  "transaction_re = seqs [WordB, times 3 (Cls upper), lit ''-'', times 4 digit, lit ''-'',
     times 6 digit, WordB]"

text \<open>\<open>/ssh-rsa\s+[A-Za-z0-9+/=]+/g\<close>\<close>

definition ssh_re :: re where
  "ssh_re = seqs [lit ''ssh-rsa'', plus (Cls space_chars),
     plus (Cls (upper @ lower @ digits @ ''+/=''))]"

text \<open>\<open>/\b[\w-]+\.[\w-]+\.company\.com\b/g\<close>\<close>

definition server_re :: re where
  "server_re = seqs [WordB, plus (Cls (word_chars @ ''-'')), lit ''.'',
     plus (Cls (word_chars @ ''-'')), lit ''.company.com'', WordB]"

text \<open>\<open>/\$\d{1,3}(,\d{3})+/g\<close>\<close>

definition amount_re :: re where
  "amount_re = seqs [lit ''$'', Rep digit 1 (Some 3), plus (Seq (lit '','') (times 3 digit))]"

text \<open>The rules in the order in which \<open>anonymizeText\<close> applies them.\<close>

definition rules :: "(re \<times> string) list" where
  "rules =
     [(email_re, ''[EMAIL]''),
      (phone1_re, ''[PHONE]''), (phone2_re, ''[PHONE]''), (phone3_re, ''[PHONE]''),
      (url_re, ''[URL]''),
      (ip_re, ''[IP_ADDRESS]''),
      (card_re, ''[CREDIT_CARD]''), (card_partial_re, ''[CREDIT_CARD_PARTIAL]''),
      (ssn_re, ''[SSN]''),
      (account_re, ''[ACCOUNT_NUMBER]''),
      (transaction_re, ''[TRANSACTION_ID]''),
      (ssh_re, ''[SSH_KEY]''),
      (server_re, ''[INTERNAL_SERVER]''),
      (amount_re, ''[AMOUNT]'')]"

fun apply_rules :: "(re \<times> string) list \<Rightarrow> string \<Rightarrow> string" where
  "apply_rules [] anonymized = anonymized"
| "apply_rules ((r, tok) # rs) anonymized = apply_rules rs (replace r tok anonymized)"

definition anonymizeText :: "string \<Rightarrow> string" where
  "anonymizeText text = apply_rules rules text"

section \<open>SHA-256 (\<open>createHash('sha256')\<close>)\<close>

text \<open>
  \<open>hashUserId\<close> feeds the identifier to the platform's SHA-256 and reads the digest in
  lower-case hexadecimal. The function is the one of FIPS 180-4; a 32-bit word is an
  \<^typ>\<open>int\<close> in \<open>0 ..< 2^32\<close> with the wrap-around written out.
\<close>

type_synonym u32 = int

definition add32 :: "u32 \<Rightarrow> u32 \<Rightarrow> u32" where
  "add32 a b = (a + b) mod 4294967296"

text \<open>The round constants and the initial hash value, in decimal.\<close>

definition sha_k :: "u32 list" where
  "sha_k = [
    1116352408, 1899447441, 3049323471, 3921009573, 961987163, 1508970993,
    2453635748, 2870763221, 3624381080, 310598401, 607225278, 1426881987,
    1925078388, 2162078206, 2614888103, 3248222580, 3835390401, 4022224774,
    264347078, 604807628, 770255983, 1249150122, 1555081692, 1996064986,
    2554220882, 2821834349, 2952996808, 3210313671, 3336571891, 3584528711,
    113926993, 338241895, 666307205, 773529912, 1294757372, 1396182291,
    1695183700, 1986661051, 2177026350, 2456956037, 2730485921, 2820302411,
    3259730800, 3345764771, 3516065817, 3600352804, 4094571909, 275423344,
    430227734, 506948616, 659060556, 883997877, 958139571, 1322822218,
    1537002063, 1747873779, 1955562222, 2024104815, 2227730452, 2361852424,
    2428436474, 2756734187, 3204031479, 3329325298]"

type_synonym sha_state = "u32 \<times> u32 \<times> u32 \<times> u32 \<times> u32 \<times> u32 \<times> u32 \<times> u32"

definition sha_h0 :: sha_state where
  "sha_h0 = (1779033703, 3144134277, 1013904242, 2773480762,
             1359893119, 2600822924, 528734635, 1541459225)"

definition rotr :: "nat \<Rightarrow> u32 \<Rightarrow> u32" where
  "rotr n x = (drop_bit n x) OR (push_bit (32 - n) x mod 4294967296)"

definition ssig0 :: "u32 \<Rightarrow> u32" where "ssig0 x = rotr 7 x XOR rotr 18 x XOR drop_bit 3 x"
definition ssig1 :: "u32 \<Rightarrow> u32" where "ssig1 x = rotr 17 x XOR rotr 19 x XOR drop_bit 10 x"
definition bsig0 :: "u32 \<Rightarrow> u32" where "bsig0 x = rotr 2 x XOR rotr 13 x XOR rotr 22 x"
definition bsig1 :: "u32 \<Rightarrow> u32" where "bsig1 x = rotr 6 x XOR rotr 11 x XOR rotr 25 x"

definition ch :: "u32 \<Rightarrow> u32 \<Rightarrow> u32 \<Rightarrow> u32" where
  "ch x y z = (x AND y) XOR ((4294967295 - x) AND z)"

definition maj :: "u32 \<Rightarrow> u32 \<Rightarrow> u32 \<Rightarrow> u32" where
  "maj x y z = (x AND y) XOR (x AND z) XOR (y AND z)"

text \<open>\<open>hash.update(string)\<close> hashes the UTF-8 encoding: one byte below 128, two bytes for
  the other code units below 256.\<close>

definition utf8 :: "string \<Rightarrow> int list" where
  "utf8 s = concat (map (\<lambda>c. let n = (of_char c :: int)
                              in if n < 128 then [n] else [192 OR drop_bit 6 n, 128 OR (n AND 63)]) s)"

text \<open>The message length in bits, as eight bytes, most significant first.\<close>

definition length_bytes :: "nat \<Rightarrow> int list" where
  "length_bytes l = map (\<lambda>i. drop_bit (8 * (7 - i)) (8 * int l) AND 255) [0..<8]"

definition pad :: "int list \<Rightarrow> int list" where
  "pad bs = (let l = length bs; z = (119 - l mod 64) mod 64
             in bs @ [128] @ replicate z 0 @ length_bytes l)"

fun be_words :: "int list \<Rightarrow> u32 list" where
  "be_words (a # b # c # d # rest) =
     (push_bit 24 a OR push_bit 16 b OR push_bit 8 c OR d) # be_words rest"
| "be_words _ = []"

text \<open>The message schedule, most recent word first: \<open>ws ! 1\<close> is \<open>W[t-2]\<close>, \<open>ws ! 6\<close> is
  \<open>W[t-7]\<close>, \<open>ws ! 14\<close> is \<open>W[t-15]\<close> and \<open>ws ! 15\<close> is \<open>W[t-16]\<close>.\<close>

fun schedule :: "nat \<Rightarrow> u32 list \<Rightarrow> u32 list" where
  "schedule 0 ws = ws"
| "schedule (Suc n) ws =
     schedule n (((ssig1 (ws ! 1) + ws ! 6 + ssig0 (ws ! 14) + ws ! 15) mod 4294967296) # ws)"

fun rounds :: "(u32 \<times> u32) list \<Rightarrow> sha_state \<Rightarrow> sha_state" where
  "rounds [] st = st"
| "rounds ((k, w) # kws) (a, b, c, d, e, f, g, h) =
     (let t1 = (h + bsig1 e + ch e f g + k + w) mod 4294967296;
          t2 = (bsig0 a + maj a b c) mod 4294967296
      in rounds kws (add32 t1 t2, a, b, c, add32 d t1, e, f, g))"

fun add_state :: "sha_state \<Rightarrow> sha_state \<Rightarrow> sha_state" where
  "add_state (a, b, c, d, e, f, g, h) (a', b', c', d', e', f', g', h') =
     (add32 a a', add32 b b', add32 c c', add32 d d',
      add32 e e', add32 f f', add32 g g', add32 h h')"

definition compress :: "sha_state \<Rightarrow> u32 list \<Rightarrow> sha_state" where
  "compress st block = add_state st (rounds (zip sha_k (rev (schedule 48 (rev block)))) st)"

function blocks :: "sha_state \<Rightarrow> u32 list \<Rightarrow> sha_state" where
  "blocks st ws = (if length ws < 16 then st else blocks (compress st (take 16 ws)) (drop 16 ws))"
  by pat_completeness auto
termination
  by (relation "measure (\<lambda>(st, ws). length ws)") auto

definition hex_chars :: string where "hex_chars = ''0123456789abcdef''"

definition hex_digit :: "int \<Rightarrow> char" where
  "hex_digit n = hex_chars ! nat (n AND 15)"

definition hex32 :: "u32 \<Rightarrow> string" where
  "hex32 w = map (\<lambda>i. hex_digit (drop_bit (4 * (7 - i)) w)) [0..<8]"

fun state_words :: "sha_state \<Rightarrow> u32 list" where
  "state_words (a, b, c, d, e, f, g, h) = [a, b, c, d, e, f, g, h]"

definition sha256_hex :: "string \<Rightarrow> string" where
  "sha256_hex s = concat (map hex32 (state_words (blocks sha_h0 (be_words (pad (utf8 s))))))"

section \<open>The message anonymizer\<close>

record reaction =
  emoji :: string
  count :: int

text \<open>A message record; \<open>reactions\<close> is optional. The field \<open>text\<close> is \<open>msg_text\<close> here.\<close>

record message =
  ts :: string
  user :: string
  username :: string
  channel :: string
  msg_text :: string
  reactions :: "reaction list option"

text \<open>The object \<open>anonymizeMessage\<close> returns, its fields prefixed with \<open>a_\<close>.\<close>

record anonymized_message =
  a_ts :: string
  a_user :: string
  a_username :: string
  a_channel :: string
  a_text :: string
  a_reactions :: "reaction list"
  anonymized :: bool

definition hashUserId :: "string \<Rightarrow> string" where
  "hashUserId userId = ''user_'' @ take 8 (sha256_hex userId)"

definition anonymizeMessage :: "message \<Rightarrow> anonymized_message" where
  "anonymizeMessage message =
     \<lparr> a_ts = ts message,
       a_user = hashUserId (user message),
       a_username = ''[USERNAME]'',
       a_channel = channel message,
       a_text = anonymizeText (msg_text message),
       a_reactions = (case reactions message of None \<Rightarrow> [] | Some rs \<Rightarrow> rs),
       anonymized = True \<rparr>"

text \<open>\<open>messages.map(anonymizeMessage)\<close>.\<close>

fun anonymizeMessages :: "message list \<Rightarrow> anonymized_message list" where
  "anonymizeMessages [] = []"
| "anonymizeMessages (message # messages) = anonymizeMessage message # anonymizeMessages messages"

section \<open>Texts in which a rule matches\<close>

text \<open>
  \<open>needs T r\<close>: every match of \<open>r\<close> contains a character of \<open>T\<close>, read off the
  pattern (a class inside \<open>T\<close> that the pattern cannot skip). Every rule needs a digit or
  one of \<open>@ : - .\<close> and no replacement token has one. \<open>test r s\<close> is \<open>r.test(s)\<close>: the
  pattern matches somewhere in the string.
\<close>

fun needs :: "string \<Rightarrow> re \<Rightarrow> bool" where
  "needs T Eps = False"
| "needs T (Cls cs) = list_all (\<lambda>c. c \<in> set T) cs"
| "needs T WordB = False"
| "needs T (Seq a b) = (needs T a \<or> needs T b)"
| "needs T (Rep a lo hi) = (0 < lo \<and> needs T a)"

definition needed_chars :: string where
  "needed_chars = digits @ ''@:-.''"

function test_from :: "re \<Rightarrow> cursor \<Rightarrow> bool" where
  "test_from r cur =
     (matches r cur \<noteq> []
      \<or> (case snd cur of [] \<Rightarrow> False | c # rest \<Rightarrow> test_from r (is_word c, rest)))"
  by pat_completeness auto
termination
  by (relation "measure (\<lambda>(r, cur). length (snd cur))") auto

definition test :: "re \<Rightarrow> string \<Rightarrow> bool" where
  "test r s = test_from r (False, s)"

definition sensitive_count :: "string \<Rightarrow> nat" where
  "sensitive_count s = length (filter (\<lambda>c. c \<in> set needed_chars) s)"

definition some_rule_matches :: "string \<Rightarrow> bool" where
  "some_rule_matches s = list_ex (\<lambda>(r, tok). test r s) rules"


section \<open>Plain objects used as dictionaries\<close>










section \<open>Tokens\<close>




function split_from :: "re \<Rightarrow> string \<Rightarrow> cursor \<Rightarrow> string list" where
  "split_from r piece cur =
     (case snd cur of
        [] \<Rightarrow> [piece]
      | c # rest \<Rightarrow>
          (case matches r cur of
             [] \<Rightarrow> split_from r (piece @ [c]) (is_word c, rest)
           | cur' # _ \<Rightarrow>
               if length (snd cur') < length (snd cur) then piece # split_from r [] cur'
               else split_from r (piece @ [c]) (is_word c, rest)))"
  by pat_completeness auto
termination
  by (relation "measure (\<lambda>(r, piece, cur). length (snd cur))") auto

definition split :: "re \<Rightarrow> string \<Rightarrow> string list" where
  "split r s = split_from r [] (False, s)"

definition spaces_re :: re where
  "spaces_re = plus (Cls space_chars)"

section \<open>Keywords (\<open>extractKeywords\<close>)\<close>




















section \<open>Letters and their case\<close>

text \<open>
  Two characters are the same letter when they are equal or are the capital and the small
  form of one of the letters \<open>A\<close> to \<open>Z\<close>. The phrases of the lexicon are made of small
  letters, digits and the space.
\<close>

definition same_letter :: "char \<Rightarrow> char \<Rightarrow> bool" where
  "same_letter c d = (c = d \<or> (c, d) \<in> set (zip upper lower) \<or> (d, c) \<in> set (zip upper lower))"

definition lexicon_chars :: string where
  "lexicon_chars = lower @ digits @ '' ''"

text \<open>The recursive equations of the loops are unfolded by hand in the proofs.\<close>

declare matches.simps(6) [simp del]
declare replace_from.simps [simp del]
declare blocks.simps [simp del]
declare split_from.simps [simp del]
declare test_from.simps [simp del]

section \<open>Facts about strings\<close>

lemma startsWith_iff: "startsWith s w \<longleftrightarrow> (\<exists>q. s = w @ q)"
  by (induction s w rule: startsWith.induct) auto

lemma includes_iff: "includes_str s w \<longleftrightarrow> (\<exists>p q. s = p @ w @ q)"
proof (induction s)
  case Nil
  then show ?case by auto
next
  case (Cons d s)
  show ?case
  proof
    assume "includes_str (d # s) w"
    then consider "startsWith (d # s) w" | "includes_str s w" by auto
    then show "\<exists>p q. d # s = p @ w @ q"
    proof cases
      case 1
      then obtain q where "d # s = w @ q" by (auto simp: startsWith_iff)
      then have "d # s = [] @ w @ q" by simp
      then show ?thesis by blast
    next
      case 2
      then obtain p q where "s = p @ w @ q" using Cons.IH by blast
      then have "d # s = (d # p) @ w @ q" by simp
      then show ?thesis by blast
    qed
  next
    assume "\<exists>p q. d # s = p @ w @ q"
    then obtain p q where pq: "d # s = p @ w @ q" by blast
    show "includes_str (d # s) w"
    proof (cases p)
      case Nil
      with pq have "startsWith (d # s) w" by (auto simp: startsWith_iff)
      then show ?thesis by simp
    next
      case (Cons e p')
      with pq have "s = p' @ w @ q" by simp
      then have "includes_str s w" using Cons.IH by blast
      then show ?thesis by simp
    qed
  qed
qed

section \<open>Facts about letters\<close>

lemma lexicon_over: "list_all (\<lambda>w. list_all (\<lambda>c. c \<in> set lexicon_chars) w) (positiveWords @ negativeWords)"
  by code_simp

lemma lexicon_chars_fixed: "list_all (\<lambda>d. lower_char d = d \<and> d \<notin> set upper \<and> code_unit d \<le> 122) lexicon_chars"
  by code_simp

lemma upper_lowered: "list_all (\<lambda>p. lower_char (fst p) = snd p) (zip upper lower)"
  by code_simp

lemma upper_codes_all: "list_all (\<lambda>n. char_of n \<in> set upper) [65..<91]"
  by code_simp

lemma in_upper: 
  assumes "in_range 65 90 c"
  shows "c \<in> set upper"
proof -
  from assms have "65 \<le> code_unit c \<and> code_unit c < 91" by (simp add: in_range_def)
  then have "code_unit c \<in> set [65..<91]" by (simp only: set_upt atLeastLessThan_iff)
  with upper_codes_all have "char_of (code_unit c) \<in> set upper"
    unfolding list_all_iff by blast
  then show ?thesis by (simp add: code_unit_def)
qed

lemma upper_paired: "u \<in> set upper \<Longrightarrow> (u, lower_char u) \<in> set (zip upper lower)"
proof -
  assume "u \<in> set upper"
  moreover have "length upper = length lower" by (simp add: upper_def lower_def)
  ultimately obtain l where "(u, l) \<in> set (zip upper lower)"
    by (metis in_set_impl_in_set_zip1)
  moreover from this upper_lowered have "lower_char u = l"
    unfolding list_all_iff by fastforce
  ultimately show ?thesis by simp
qed

lemma lower_char_same_letter:
  assumes d: "d \<in> set lexicon_chars"
  shows "lower_char c = d \<longleftrightarrow> same_letter c d"
proof
  from d lexicon_chars_fixed have fixd: "lower_char d = d" and nu: "d \<notin> set upper"
    and small: "code_unit d \<le> 122"
    unfolding list_all_iff by blast+
  {
    assume eq: "lower_char c = d"
    show "same_letter c d"
    proof (cases "in_range 65 90 c")
      case True
      then have "c \<in> set upper" by (rule in_upper)
      then have "(c, lower_char c) \<in> set (zip upper lower)" by (rule upper_paired)
      with eq show ?thesis by (simp add: same_letter_def)
    next
      case False
      show ?thesis
      proof (cases "in_range 192 214 c \<or> in_range 216 222 c")
        case True
        then have "lower_char c = char_of (code_unit c + 32)" by (simp add: lower_char_def)
        then have "code_unit (lower_char c) = (code_unit c + 32) mod 256"
          by (simp add: code_unit_def)
        moreover have "code_unit c + 32 < 256" "192 \<le> code_unit c"
          using True by (auto simp: in_range_def)
        ultimately have "code_unit (lower_char c) \<ge> 224" by simp
        with eq small show ?thesis by simp
      next
        case other: False
        with False have "lower_char c = c" by (simp add: lower_char_def)
        with eq show ?thesis by (simp add: same_letter_def)
      qed
    qed
  }
  {
    assume "same_letter c d"
    then consider "c = d" | "(c, d) \<in> set (zip upper lower)" | "(d, c) \<in> set (zip upper lower)"
      by (auto simp: same_letter_def)
    then show "lower_char c = d"
    proof cases
      case 1
      with fixd show ?thesis by simp
    next
      case 2
      with upper_lowered show ?thesis unfolding list_all_iff by fastforce
    next
      case 3
      then have "d \<in> set upper" by (rule set_zip_leftD)
      with nu show ?thesis by simp
    qed
  }
qed

lemma includes_lower_iff:
  assumes w: "list_all (\<lambda>c. c \<in> set lexicon_chars) w"
  shows "includes_str (toLowerCase text) w
           \<longleftrightarrow> (\<exists>p s q. text = p @ s @ q \<and> list_all2 same_letter s w)"
proof -
  have same: "map lower_char s = w \<longleftrightarrow> list_all2 same_letter s w" for s
  proof -
    have "lower_char (s ! i) = w ! i \<longleftrightarrow> same_letter (s ! i) (w ! i)" if "i < length w" for i
    proof -
      from that w have "w ! i \<in> set lexicon_chars" by (simp add: list_all_length)
      then show ?thesis by (rule lower_char_same_letter)
    qed
    then show ?thesis
      by (auto simp: list_all2_conv_all_nth list_eq_iff_nth_eq)
  qed
  show ?thesis
  proof
    assume "includes_str (toLowerCase text) w"
    then obtain p q where "map lower_char text = p @ w @ q"
      by (auto simp: includes_iff toLowerCase_def)
    then have "\<exists>us vs. text = us @ vs \<and> p = map lower_char us \<and> w @ q = map lower_char vs"
      by (simp only: map_eq_append_conv)
    then obtain p' r where t1: "text = p' @ r" and r: "map lower_char r = w @ q"
      by metis
    from r have "\<exists>us vs. r = us @ vs \<and> w = map lower_char us \<and> q = map lower_char vs"
      by (simp only: map_eq_append_conv)
    then obtain s q' where t2: "r = s @ q'" and "map lower_char s = w"
      by metis
    then have "list_all2 same_letter s w" by (simp only: same)
    with t1 t2 show "\<exists>p s q. text = p @ s @ q \<and> list_all2 same_letter s w" by blast
  next
    assume "\<exists>p s q. text = p @ s @ q \<and> list_all2 same_letter s w"
    then obtain p s q where t: "text = p @ s @ q" and "list_all2 same_letter s w" by blast
    then have "map lower_char s = w" by (simp only: same)
    with t have "toLowerCase text = map lower_char p @ w @ map lower_char q"
      by (simp add: toLowerCase_def)
    then show "includes_str (toLowerCase text) w" unfolding includes_iff by blast
  qed
qed

section \<open>Facts about the basic scorer\<close>

lemma positive_loop_count:
  "positive_loop t ws sc = sc + int (length (filter (includes_str t) ws))"
  by (induction ws arbitrary: sc) auto

lemma negative_loop_count:
  "negative_loop t ws sc = sc - int (length (filter (includes_str t) ws))"
  by (induction ws arbitrary: sc) auto

lemma distinct_positiveWords: "distinct positiveWords"
  by (simp add: positiveWords_def)

lemma distinct_negativeWords: "distinct negativeWords"
  by (simp add: negativeWords_def)

lemma card_filter_distinct:
  "distinct ws \<Longrightarrow> card {w \<in> set ws. P w} = length (filter P ws)"
proof -
  assume d: "distinct ws"
  then have "card (set (filter P ws)) = length (filter P ws)"
    by (simp add: distinct_card del: set_filter)
  then show ?thesis by simp
qed

lemma getSentiment_score_filter:
  "getSentiment_score text =
     int (length (filter (includes_str (toLowerCase text)) positiveWords))
     - int (length (filter (includes_str (toLowerCase text)) negativeWords))"
  by (simp add: getSentiment_score_def Let_def positive_loop_count negative_loop_count)

lemma great_wonderful_score: "getSentiment_score ''This is great and wonderful'' = 2"
  by code_simp

lemma great_wonderful_matches:
  "length (filter (includes_str (toLowerCase ''This is great and wonderful''))
     (positiveWords @ negativeWords)) = 2"
  by code_simp

lemma critical_bug_label: "getSentiment ''critical bug, urgent issue'' = Negative"
  by code_simp

lemma distinct_lexicon: "distinct (positiveWords @ negativeWords)"
  by (simp add: positiveWords_def negativeWords_def)


lemma lexicon_word_chars:
  "w \<in> set (positiveWords @ negativeWords) \<Longrightarrow> list_all (\<lambda>c. c \<in> set lexicon_chars) w"
  using lexicon_over unfolding list_all_iff by blast

lemma filter_lexicon_cong:
  assumes "set ws \<subseteq> set (positiveWords @ negativeWords)"
  shows "filter (includes_str (toLowerCase text)) ws
           = filter (\<lambda>w. \<exists>p s q. text = p @ s @ q \<and> list_all2 same_letter s w) ws"
proof (rule filter_cong [OF refl])
  fix w
  assume "w \<in> set ws"
  with assms have "w \<in> set (positiveWords @ negativeWords)" by blast
  then have "list_all (\<lambda>c. c \<in> set lexicon_chars) w" by (rule lexicon_word_chars)
  then show "includes_str (toLowerCase text) w
              = (\<exists>p s q. text = p @ s @ q \<and> list_all2 same_letter s w)"
    by (rule includes_lower_iff)
qed

lemma getSentiment_score_card:
  "getSentiment_score text =
     int (card {w \<in> set positiveWords. \<exists>p s q. text = p @ s @ q \<and> list_all2 same_letter s w})
     - int (card {w \<in> set negativeWords. \<exists>p s q. text = p @ s @ q \<and> list_all2 same_letter s w})"
proof -
  have "set positiveWords \<subseteq> set (positiveWords @ negativeWords)"
    and "set negativeWords \<subseteq> set (positiveWords @ negativeWords)" by simp_all
  then show ?thesis
    by (simp only: getSentiment_score_filter filter_lexicon_cong
          card_filter_distinct [OF distinct_positiveWords]
          card_filter_distinct [OF distinct_negativeWords])
qed

lemma great_wonderful_upper: "getSentiment ''This is GREAT and Wonderful'' = Positive"
  by code_simp

text \<open>
  Claim C3. The net score of the basic scorer is the number of positive phrases that occur
  in the text minus the number of negative phrases that do. A phrase occurs when some
  substring of the text equals it up to the case of its letters; each phrase of the
  (duplicate-free) lists counts once. The label is positive exactly for a score above
  zero, negative exactly below zero and neutral exactly at zero. "This is great and
  wonderful" is positive with score 2, the number of phrases that occur in it, and so is
  the same text with the phrases in capitals; "critical bug, urgent issue" is negative; a
  text in which no phrase occurs is neutral.
\<close>

theorem getSentiment_net_score:
  "getSentiment_score text =
     int (card {w \<in> set positiveWords. \<exists>p s q. text = p @ s @ q \<and> list_all2 same_letter s w})
     - int (card {w \<in> set negativeWords. \<exists>p s q. text = p @ s @ q \<and> list_all2 same_letter s w})
   \<and> (getSentiment text = Positive \<longleftrightarrow> getSentiment_score text > 0)
   \<and> (getSentiment text = Negative \<longleftrightarrow> getSentiment_score text < 0)
   \<and> (getSentiment text = Neutral \<longleftrightarrow> getSentiment_score text = 0)
   \<and> getSentiment ''This is great and wonderful'' = Positive
   \<and> getSentiment_score ''This is great and wonderful'' = 2
   \<and> card {w \<in> set (positiveWords @ negativeWords).
             \<exists>p s q. ''This is great and wonderful'' = p @ s @ q \<and> list_all2 same_letter s w} = 2
   \<and> getSentiment ''This is GREAT and Wonderful'' = Positive
   \<and> getSentiment ''critical bug, urgent issue'' = Negative
   \<and> ((\<forall>w \<in> set (positiveWords @ negativeWords).
          \<not> (\<exists>p s q. text = p @ s @ q \<and> list_all2 same_letter s w))
        \<longrightarrow> getSentiment text = Neutral)"
proof -
  have labels:
    "(getSentiment text = Positive \<longleftrightarrow> getSentiment_score text > 0)
     \<and> (getSentiment text = Negative \<longleftrightarrow> getSentiment_score text < 0)
     \<and> (getSentiment text = Neutral \<longleftrightarrow> getSentiment_score text = 0)"
    by (simp add: getSentiment_def Let_def)
  have ex1: "getSentiment ''This is great and wonderful'' = Positive"
    by (simp add: getSentiment_def Let_def great_wonderful_score)
  have ex2: "card {w \<in> set (positiveWords @ negativeWords).
               \<exists>p s q. ''This is great and wonderful'' = p @ s @ q \<and> list_all2 same_letter s w} = 2"
    using filter_lexicon_cong [OF subset_refl, of "''This is great and wonderful''"]
    by (simp only: card_filter_distinct [OF distinct_lexicon] flip: great_wonderful_matches)
  have none: "getSentiment text = Neutral"
    if h: "\<forall>w \<in> set (positiveWords @ negativeWords).
             \<not> (\<exists>p s q. text = p @ s @ q \<and> list_all2 same_letter s w)"
  proof -
    have "card {w \<in> set positiveWords. \<exists>p s q. text = p @ s @ q \<and> list_all2 same_letter s w} = 0"
      using h by auto
    moreover
    have "card {w \<in> set negativeWords. \<exists>p s q. text = p @ s @ q \<and> list_all2 same_letter s w} = 0"
      using h by auto
    ultimately have "getSentiment_score text = 0"
      by (simp only: getSentiment_score_card)
    then show ?thesis by (simp add: getSentiment_def)
  qed
  show ?thesis
    using getSentiment_score_card [of "text"] labels ex1 ex2 great_wonderful_score
      great_wonderful_upper critical_bug_label none
    by blast
qed

theorem getSentiment_net_score_witness:
  "filter (includes_str (toLowerCase ''See YOU at Noon'')) (positiveWords @ negativeWords) = []
   \<and> getSentiment ''See YOU at Noon'' = Neutral
   \<and> getSentiment_score ''See YOU at Noon'' = 0"
proof -
  have e: "filter (includes_str (toLowerCase ''See YOU at Noon'')) (positiveWords @ negativeWords) = []"
    by code_simp
  then have "filter (\<lambda>w. \<exists>p s q. ''See YOU at Noon'' = p @ s @ q \<and> list_all2 same_letter s w)
               (positiveWords @ negativeWords) = []"
    by (simp only: filter_lexicon_cong [OF subset_refl])
  then have "\<forall>w \<in> set (positiveWords @ negativeWords).
               \<not> (\<exists>p s q. ''See YOU at Noon'' = p @ s @ q \<and> list_all2 same_letter s w)"
    by (simp only: filter_empty_conv)
  with getSentiment_net_score [of "''See YOU at Noon''"]
  have "getSentiment ''See YOU at Noon'' = Neutral
        \<and> (getSentiment ''See YOU at Noon'' = Neutral
             \<longleftrightarrow> getSentiment_score ''See YOU at Noon'' = 0)"
    by blast
  with e show ?thesis by blast
qed

section \<open>Facts about the matcher and the redaction\<close>

lemma matches_consumes:
  "cur' \<in> set (matches r cur) \<Longrightarrow>
     \<exists>u. snd cur = u @ snd cur' \<and> (needs T r \<longrightarrow> set u \<inter> set T \<noteq> {})"
proof (induction r cur arbitrary: cur' rule: matches.induct)
  case (1 cur)
  then show ?case by simp
next
  case (2 cs p)
  then show ?case by simp
next
  case (3 cs p c rest)
  then show ?case by (auto simp: list_all_iff split: if_splits)
next
  case (4 cur)
  then show ?case by (auto split: if_splits)
next
  case (5 a b cur)
  from 5(3) obtain mid where mid: "mid \<in> set (matches a cur)" and fin: "cur' \<in> set (matches b mid)"
    by auto
  from 5(1) [OF mid] obtain u1 where u1: "snd cur = u1 @ snd mid" "needs T a \<longrightarrow> set u1 \<inter> set T \<noteq> {}"
    by blast
  from 5(2) [OF mid fin] obtain u2 where u2: "snd mid = u2 @ snd cur'" "needs T b \<longrightarrow> set u2 \<inter> set T \<noteq> {}"
    by blast
  have "snd cur = (u1 @ u2) @ snd cur'" using u1 u2 by simp
  moreover have "needs T (Seq a b) \<longrightarrow> set (u1 @ u2) \<inter> set T \<noteq> {}" using u1 u2 by auto
  ultimately show ?case by blast
next
  case (6 a lo hi cur)
  show ?case
  proof (cases "cur' = cur \<and> lo = 0")
    case True
    then show ?thesis by simp
  next
    case False
    with 6(3) [unfolded matches.simps(6) [of a lo hi cur]] have nz: "hi \<noteq> Some 0"
      and "\<exists>mid \<in> set (matches a cur). length (snd mid) < length (snd cur)
             \<and> cur' \<in> set (matches (Rep a (lo - 1) (map_option (\<lambda>h. h - 1) hi)) mid)"
      by (auto split: if_splits)
    then obtain mid where mid: "mid \<in> set (matches a cur)" and lt: "length (snd mid) < length (snd cur)"
      and fin: "cur' \<in> set (matches (Rep a (lo - 1) (map_option (\<lambda>h. h - 1) hi)) mid)"
      by blast
    from 6(1) [OF nz mid] obtain u1 where u1: "snd cur = u1 @ snd mid" "needs T a \<longrightarrow> set u1 \<inter> set T \<noteq> {}"
      by blast
    from 6(2) [OF nz mid lt fin] obtain u2 where u2: "snd mid = u2 @ snd cur'"
      by blast
    have "snd cur = (u1 @ u2) @ snd cur'" using u1 u2 by simp
    moreover have "needs T (Rep a lo hi) \<longrightarrow> set (u1 @ u2) \<inter> set T \<noteq> {}" using u1 by auto
    ultimately show ?thesis by blast
  qed
qed

lemma replace_from_unchanged:
  "\<not> test_from r (p, s) \<Longrightarrow> replace_from r tok (p, s) = s"
proof (induction s arbitrary: p)
  case Nil
  then have "matches r (p, []) = []" by (subst (asm) test_from.simps) simp
  then show ?case by (subst replace_from.simps) simp
next
  case (Cons c s)
  from Cons.prems have m: "matches r (p, c # s) = []" and "\<not> test_from r (is_word c, s)"
    by (subst (asm) test_from.simps, simp)+
  then have "replace_from r tok (is_word c, s) = s" using Cons.IH by blast
  with m show ?case by (subst replace_from.simps) simp
qed

lemma matches_shorter:
  assumes "needs T r" and "cur' \<in> set (matches r cur)"
  shows "length (snd cur') < length (snd cur)
         \<and> length (filter (\<lambda>c. c \<in> set T) (snd cur')) < length (filter (\<lambda>c. c \<in> set T) (snd cur))"
proof -
  from matches_consumes [OF assms(2), of T] assms(1)
  obtain u where u: "snd cur = u @ snd cur'" and "set u \<inter> set T \<noteq> {}" by blast
  then obtain c where "c \<in> set u" "c \<in> set T" by blast
  then have "filter (\<lambda>c. c \<in> set T) u \<noteq> []" by (auto simp: filter_empty_conv)
  then have "0 < length (filter (\<lambda>c. c \<in> set T) u)" by simp
  moreover from this have "0 < length u" by (cases u) auto
  ultimately show ?thesis by (simp add: u)
qed

lemma replace_from_count:
  assumes n: "needs T r" and t: "set tok \<inter> set T = {}"
  shows "length (filter (\<lambda>c. c \<in> set T) (replace_from r tok cur))
           \<le> length (filter (\<lambda>c. c \<in> set T) (snd cur))
         \<and> (test_from r cur \<longrightarrow>
              length (filter (\<lambda>c. c \<in> set T) (replace_from r tok cur))
                < length (filter (\<lambda>c. c \<in> set T) (snd cur)))"
  using n t
proof (induction r tok cur rule: replace_from.induct)
  case (1 r tok cur)
  note n = "1.prems"(1) and t = "1.prems"(2)
  let ?w = "\<lambda>s. length (filter (\<lambda>c. c \<in> set T) s)"
  have tok0: "?w tok = 0" using t by (auto simp: filter_empty_conv)
  show ?case
  proof (cases "matches r cur")
    case none: Nil
    show ?thesis
    proof (cases "snd cur")
      case Nil
      with none have "replace_from r tok cur = []" by (subst replace_from.simps) simp
      moreover from none Nil have "\<not> test_from r cur" by (subst test_from.simps) simp
      ultimately show ?thesis by (simp add: Nil)
    next
      case rest: (Cons c rest)
      with none have r: "replace_from r tok cur = c # replace_from r tok (is_word c, rest)"
        by (subst replace_from.simps) simp
      from none rest have tf: "test_from r cur = test_from r (is_word c, rest)"
        by (subst test_from.simps) simp
      from "1.IH"(1) [OF none rest n t] show ?thesis
        by (simp add: r tf rest)
    qed
  next
    case some: (Cons cur' more)
    then have mem: "cur' \<in> set (matches r cur)" by simp
    from matches_shorter [OF n mem]
    have shorter: "length (snd cur') < length (snd cur)" and less: "?w (snd cur') < ?w (snd cur)"
      by simp_all
    from some shorter have r: "replace_from r tok cur = tok @ replace_from r tok cur'"
      by (subst replace_from.simps) simp
    from "1.IH"(2) [OF some shorter n t]
    have "?w (replace_from r tok cur') \<le> ?w (snd cur')" by simp
    with less tok0 show ?thesis by (simp add: r)
  qed
qed

lemma replace_unchanged: "\<not> test r s \<Longrightarrow> replace r tok s = s"
  by (simp add: test_def replace_def replace_from_unchanged)

lemma replace_count:
  assumes "needs T r" and "set tok \<inter> set T = {}"
  shows "length (filter (\<lambda>c. c \<in> set T) (replace r tok s)) \<le> length (filter (\<lambda>c. c \<in> set T) s)"
    and "test r s \<Longrightarrow>
           length (filter (\<lambda>c. c \<in> set T) (replace r tok s)) < length (filter (\<lambda>c. c \<in> set T) s)"
  using replace_from_count [OF assms, of "(False, s)"] by (simp_all add: test_def replace_def)

lemma apply_rules_unchanged:
  "\<not> list_ex (\<lambda>(r, tok). test r s) rs \<Longrightarrow> apply_rules rs s = s"
proof (induction rs)
  case Nil
  then show ?case by simp
next
  case (Cons rt rs)
  obtain r tok where rt: "rt = (r, tok)" by (cases rt)
  with Cons.prems have "\<not> test r s" and "\<not> list_ex (\<lambda>(r, tok). test r s) rs" by simp_all
  then show ?case using Cons.IH by (simp add: rt replace_unchanged)
qed

lemma apply_rules_count:
  assumes "list_all (\<lambda>(r, tok). needs T r \<and> set tok \<inter> set T = {}) rs"
  shows "length (filter (\<lambda>c. c \<in> set T) (apply_rules rs s)) \<le> length (filter (\<lambda>c. c \<in> set T) s)
         \<and> (list_ex (\<lambda>(r, tok). test r s) rs \<longrightarrow>
              length (filter (\<lambda>c. c \<in> set T) (apply_rules rs s))
                < length (filter (\<lambda>c. c \<in> set T) s))"
  using assms
proof (induction rs arbitrary: s)
  case Nil
  then show ?case by simp
next
  case (Cons rt rs)
  let ?w = "\<lambda>s. length (filter (\<lambda>c. c \<in> set T) s)"
  obtain r tok where rt: "rt = (r, tok)" by (cases rt)
  with Cons.prems have n: "needs T r" and t: "set tok \<inter> set T = {}"
    and rest: "list_all (\<lambda>(r, tok). needs T r \<and> set tok \<inter> set T = {}) rs" by simp_all
  have a: "apply_rules (rt # rs) s = apply_rules rs (replace r tok s)" by (simp add: rt)
  from Cons.IH [OF rest, of "replace r tok s"]
  have ih: "?w (apply_rules rs (replace r tok s)) \<le> ?w (replace r tok s)" by blast
  have le: "?w (replace r tok s) \<le> ?w s" using n t by (rule replace_count(1))
  show ?case
  proof (cases "test r s")
    case True
    then have "?w (replace r tok s) < ?w s" using replace_count(2) [OF n t] by blast
    with ih show ?thesis by (simp add: a)
  next
    case False
    then have same: "replace r tok s = s" by (rule replace_unchanged)
    from Cons.IH [OF rest, of s] False show ?thesis by (simp add: a same rt)
  qed
qed

lemma rules_need: "list_all (\<lambda>(r, tok). needs needed_chars r \<and> list_all (\<lambda>c. c \<notin> set needed_chars) tok) rules"
  by code_simp

lemma rules_need_sets:
  "list_all (\<lambda>(r, tok). needs needed_chars r \<and> set tok \<inter> set needed_chars = {}) rules"
proof -
  have "(list_all (\<lambda>c. c \<notin> set needed_chars) tok) = (set tok \<inter> set needed_chars = {})" for tok
    by (auto simp: list_all_iff)
  with rules_need show ?thesis by simp
qed

lemma anonymizeText_count:
  "sensitive_count (anonymizeText s) \<le> sensitive_count s"
  "some_rule_matches s \<Longrightarrow> sensitive_count (anonymizeText s) < sensitive_count s"
  using apply_rules_count [OF rules_need_sets, of s]
  by (simp_all add: anonymizeText_def sensitive_count_def some_rule_matches_def)

lemma anonymizeText_fixed_iff: "anonymizeText s = s \<longleftrightarrow> \<not> some_rule_matches s"
proof
  assume "anonymizeText s = s"
  then have "\<not> sensitive_count (anonymizeText s) < sensitive_count s" by simp
  then show "\<not> some_rule_matches s" using anonymizeText_count(2) by blast
next
  assume "\<not> some_rule_matches s"
  then show "anonymizeText s = s"
    by (simp add: anonymizeText_def some_rule_matches_def apply_rules_unchanged)
qed








lemma redact_scenario_text:
  "anonymizeText ''Email me at a@b.com or call 555-123-4567''
     = ''Email me at [EMAIL] or call [PHONE]''"
  by code_simp

lemma hash_scenario_user: "hashUserId ''U1'' = ''user_316ca0ef''"
  by code_simp

lemma redact_amount_phone_once:
  "anonymizeText ''$1,000555-123-4567'' = ''[AMOUNT]555-123-4567''"
  by code_simp

lemma redact_amount_phone_twice:
  "anonymizeText ''[AMOUNT]555-123-4567'' = ''[AMOUNT][PHONE]''"
  by code_simp

lemma anonymizeText_reaches_fixed_point:
  "\<exists>k \<le> sensitive_count t. anonymizeText ((anonymizeText ^^ k) t) = (anonymizeText ^^ k) t"
proof (induction "sensitive_count t" arbitrary: t rule: less_induct)
  case less
  show ?case
  proof (cases "anonymizeText t = t")
    case True
    then have "anonymizeText ((anonymizeText ^^ 0) t) = (anonymizeText ^^ 0) t" by simp
    then show ?thesis by blast
  next
    case False
    then have "some_rule_matches t" by (simp add: anonymizeText_fixed_iff)
    then have lt: "sensitive_count (anonymizeText t) < sensitive_count t"
      by (rule anonymizeText_count(2))
    from less [OF lt] obtain k where k: "k \<le> sensitive_count (anonymizeText t)"
      and f: "anonymizeText ((anonymizeText ^^ k) (anonymizeText t))
                = (anonymizeText ^^ k) (anonymizeText t)"
      by blast
    have "(anonymizeText ^^ Suc k) t = (anonymizeText ^^ k) (anonymizeText t)"
      by (simp add: funpow_swap1)
    with f have "anonymizeText ((anonymizeText ^^ Suc k) t) = (anonymizeText ^^ Suc k) t"
      by (simp only:)
    moreover from k lt have "Suc k \<le> sensitive_count t" by simp
    ultimately show ?thesis by blast
  qed
qed

lemma server_down_once:
  "anonymizeText ''Server 10.0.0.1 is down.'' = ''Server [IP_ADDRESS] is down.''"
  by code_simp

lemma server_down_settled: "\<not> some_rule_matches ''Server [IP_ADDRESS] is down.''"
  by code_simp

lemma amount_phone_counts:
  "sensitive_count ''[AMOUNT][PHONE]'' = 0 \<and> sensitive_count ''[AMOUNT]555-123-4567'' = 12"
  by code_simp




lemma anonymizeMessages_length: "length (anonymizeMessages ms) = length ms"
  by (induction ms) simp_all

lemma anonymizeMessages_nth:
  "i < length ms \<Longrightarrow> anonymizeMessages ms ! i = anonymizeMessage (ms ! i)"
proof (induction ms arbitrary: i)
  case Nil
  then show ?case by simp
next
  case (Cons m ms)
  then show ?case by (cases i) simp_all
qed

section \<open>The anonymizer: claims\<close>




text \<open>
  Claim C4, as stated: \<open>redact (redact t) = redact t\<close> for every \<open>t\<close>. It fails: the amount
  rule has no \<open>\b\<close> at its end, so in \<open>$1,000555-123-4567\<close> it leaves \<open>555-123-4567\<close>
  behind the token, where the phone rule, which ran earlier and wanted a word boundary in
  front of the number, matches only on the second pass.
\<close>

theorem anonymizeText_not_idempotent:
  "anonymizeText (anonymizeText ''$1,000555-123-4567'') \<noteq> anonymizeText ''$1,000555-123-4567''"
  by (simp add: redact_amount_phone_once redact_amount_phone_twice)

text \<open>
  Claim C4, amended. Redacting a redacted text again changes nothing exactly when no rule
  matches anywhere in the redacted text. When a second pass does change it, the pass
  lowers the number of digits and characters \<open>@ : - .\<close> in it, so that redacting over and
  over reaches a text that no longer changes after at most as many passes as the input has
  such characters.
\<close>

theorem anonymizeText_idempotent_iff:
  "(anonymizeText (anonymizeText t) = anonymizeText t \<longleftrightarrow> \<not> some_rule_matches (anonymizeText t))
   \<and> (anonymizeText (anonymizeText t) \<noteq> anonymizeText t \<longrightarrow>
        sensitive_count (anonymizeText (anonymizeText t)) < sensitive_count (anonymizeText t))
   \<and> (\<exists>k \<le> sensitive_count t. anonymizeText ((anonymizeText ^^ k) t) = (anonymizeText ^^ k) t)"
proof -
  have "anonymizeText (anonymizeText t) \<noteq> anonymizeText t \<longrightarrow>
          sensitive_count (anonymizeText (anonymizeText t)) < sensitive_count (anonymizeText t)"
    using anonymizeText_fixed_iff [of "anonymizeText t"] anonymizeText_count(2) [of "anonymizeText t"]
    by blast
  with anonymizeText_fixed_iff [of "anonymizeText t"] anonymizeText_reaches_fixed_point [of t]
  show ?thesis by blast
qed

theorem anonymizeText_idempotent_iff_witness:
  "anonymizeText (anonymizeText ''$1,000555-123-4567'') \<noteq> anonymizeText ''$1,000555-123-4567''
   \<and> sensitive_count (anonymizeText (anonymizeText ''$1,000555-123-4567''))
       < sensitive_count (anonymizeText ''$1,000555-123-4567'')
   \<and> \<not> some_rule_matches (anonymizeText ''Server 10.0.0.1 is down.'')
   \<and> anonymizeText (anonymizeText ''Server 10.0.0.1 is down.'')
       = anonymizeText ''Server 10.0.0.1 is down.''"
proof -
  have ne: "anonymizeText (anonymizeText ''$1,000555-123-4567'') \<noteq> anonymizeText ''$1,000555-123-4567''"
    by (simp add: redact_amount_phone_once redact_amount_phone_twice)
  have settled: "\<not> some_rule_matches (anonymizeText ''Server 10.0.0.1 is down.'')"
    by (simp only: server_down_once server_down_settled not_False_eq_True)
  from anonymizeText_idempotent_iff [of "''$1,000555-123-4567''"] ne
  have lt: "sensitive_count (anonymizeText (anonymizeText ''$1,000555-123-4567''))
              < sensitive_count (anonymizeText ''$1,000555-123-4567'')"
    by blast
  from anonymizeText_idempotent_iff [of "''Server 10.0.0.1 is down.''"] settled
  have "anonymizeText (anonymizeText ''Server 10.0.0.1 is down.'')
          = anonymizeText ''Server 10.0.0.1 is down.''"
    by blast
  with ne lt settled show ?thesis by blast
qed

text \<open>
  Claim C7. \<open>anonymizeMessage\<close> copies \<open>ts\<close>, \<open>channel\<close> and \<open>reactions\<close> (the empty list
  when the input has none), sets \<open>username\<close> to the marker and \<open>anonymized\<close> to true;
  \<open>anonymizeMessages\<close> returns as many records as it was given, the i-th being
  \<open>anonymizeMessage\<close> of the i-th input.
\<close>

theorem anonymizeMessage_frame:
  "a_ts (anonymizeMessage m) = ts m
   \<and> a_channel (anonymizeMessage m) = channel m
   \<and> a_reactions (anonymizeMessage m) = (case reactions m of None \<Rightarrow> [] | Some rs \<Rightarrow> rs)
   \<and> a_username (anonymizeMessage m) = ''[USERNAME]''
   \<and> anonymized (anonymizeMessage m)
   \<and> length (anonymizeMessages ms) = length ms
   \<and> (\<forall>i < length ms. anonymizeMessages ms ! i = anonymizeMessage (ms ! i))"
  by (simp add: anonymizeMessage_def anonymizeMessages_length anonymizeMessages_nth)

theorem anonymizeMessage_frame_witness:
  "(1::nat) < length [\<lparr> ts = ''1.0'', user = ''U1'', username = ''alice'', channel = ''C1'',
                       msg_text = ''hello team'', reactions = None \<rparr>,
                     \<lparr> ts = ''2.0'', user = ''U2'', username = ''bob'', channel = ''C2'',
                       msg_text = ''see you'', reactions = Some [\<lparr> emoji = ''tada'', count = 2 \<rparr>] \<rparr>]
   \<and> anonymizeMessages [\<lparr> ts = ''1.0'', user = ''U1'', username = ''alice'', channel = ''C1'',
                       msg_text = ''hello team'', reactions = None \<rparr>,
                     \<lparr> ts = ''2.0'', user = ''U2'', username = ''bob'', channel = ''C2'',
                       msg_text = ''see you'', reactions = Some [\<lparr> emoji = ''tada'', count = 2 \<rparr>] \<rparr>] ! 1
       = anonymizeMessage \<lparr> ts = ''2.0'', user = ''U2'', username = ''bob'', channel = ''C2'',
                       msg_text = ''see you'', reactions = Some [\<lparr> emoji = ''tada'', count = 2 \<rparr>] \<rparr>
   \<and> a_reactions (anonymizeMessage \<lparr> ts = ''1.0'', user = ''U1'', username = ''alice'',
         channel = ''C1'', msg_text = ''hello team'', reactions = None \<rparr>) = []"
  using anonymizeMessage_frame [of "\<lparr> ts = ''1.0'', user = ''U1'', username = ''alice'',
         channel = ''C1'', msg_text = ''hello team'', reactions = None \<rparr>"
       "[\<lparr> ts = ''1.0'', user = ''U1'', username = ''alice'', channel = ''C1'',
                       msg_text = ''hello team'', reactions = None \<rparr>,
                     \<lparr> ts = ''2.0'', user = ''U2'', username = ''bob'', channel = ''C2'',
                       msg_text = ''see you'', reactions = Some [\<lparr> emoji = ''tada'', count = 2 \<rparr>] \<rparr>]"]
  by simp

text \<open>
  Claim C8. For the message with \<open>ts = "1.0"\<close>, \<open>user = "U1"\<close>, \<open>channel = "C1"\<close>, the text
  \<open>Email me at a@b.com or call 555-123-4567\<close> and no reactions, \<open>anonymizeMessage\<close> returns
  the text \<open>Email me at [EMAIL] or call [PHONE]\<close>, a user that is \<open>user_\<close> followed by exactly
  8 hexadecimal characters (\<open>316ca0ef\<close>), the username \<open>[USERNAME]\<close> and the flag true,
  whatever the input's username is.
\<close>

theorem anonymizeMessage_scenario:
  "anonymizeMessage \<lparr> ts = ''1.0'', user = ''U1'', username = u, channel = ''C1'',
       msg_text = ''Email me at a@b.com or call 555-123-4567'', reactions = Some [] \<rparr>
     = \<lparr> a_ts = ''1.0'', a_user = ''user_'' @ ''316ca0ef'', a_username = ''[USERNAME]'',
         a_channel = ''C1'', a_text = ''Email me at [EMAIL] or call [PHONE]'',
         a_reactions = [], anonymized = True \<rparr>
   \<and> length ''316ca0ef'' = 8
   \<and> list_all (\<lambda>c. c \<in> set hex_chars) ''316ca0ef''"
  by (simp add: anonymizeMessage_def redact_scenario_text hash_scenario_user hex_chars_def)

section \<open>Facts about objects and keywords\<close>

































section \<open>Keywords: claims\<close>





end
